theory Spec2Isabelle
  imports Main "HOL-Library.Sublist"
begin

section \<open>Python primitives used by the store and the checkpoint log\<close>

text \<open>
  Python strings are modelled as \<open>string\<close>, tuples and lists as HOL lists, and
  \<open>None\<close> as \<open>option\<close>. The functions below are the builtins the two modules call.
\<close>

text \<open>\<open>sep.join(xs)\<close>: the items of \<open>xs\<close> with \<open>sep\<close> between neighbours.\<close>

fun py_join :: "string \<Rightarrow> string list \<Rightarrow> string" where
  "py_join sep [] = []"
| "py_join sep [x] = x"
| "py_join sep (x # y # ys) = x @ sep @ py_join sep (y # ys)"

text \<open>\<open>s.startswith(p)\<close>.\<close>

definition startswith :: "string \<Rightarrow> string \<Rightarrow> bool" where
  "startswith s p = (take (length p) s = p)"

text \<open>
  A slice bound \<open>i\<close> on a sequence of length \<open>n\<close>: a negative bound counts from the
  end, and every bound is clamped into \<open>0..n\<close>.
\<close>

definition slice_bound :: "int \<Rightarrow> int \<Rightarrow> int" where
  "slice_bound i n = (if i < 0 then max (i + n) 0 else min i n)"

text \<open>\<open>xs[lo:hi]\<close> with step 1; \<open>None\<close> is an omitted bound.\<close>

definition py_slice :: "int option \<Rightarrow> int option \<Rightarrow> 'a list \<Rightarrow> 'a list" where
  "py_slice lo hi xs =
     (let n = int (length xs);
          l = (case lo of None \<Rightarrow> 0 | Some i \<Rightarrow> slice_bound i n);
          h = (case hi of None \<Rightarrow> n | Some j \<Rightarrow> slice_bound j n)
      in take (nat (h - l)) (drop (nat l) xs))"

text \<open>
  A \<open>dict\<close> keeps its items in insertion order, so it is an association list with
  at most one item per key. \<open>d.get(k)\<close>, \<open>d[k] = v\<close> (an existing key keeps its
  position, a new key goes last) and \<open>d.pop(k, None)\<close>:
\<close>

type_synonym ('k, 'v) dict = "('k \<times> 'v) list"

fun dict_get :: "('k, 'v) dict \<Rightarrow> 'k \<Rightarrow> 'v option" where
  "dict_get [] k = None"
| "dict_get ((k', v) # d) k = (if k' = k then Some v else dict_get d k)"

fun dict_set :: "'k \<Rightarrow> 'v \<Rightarrow> ('k, 'v) dict \<Rightarrow> ('k, 'v) dict" where
  "dict_set k v [] = [(k, v)]"
| "dict_set k v ((k', v') # d) = (if k' = k then (k, v) # d else (k', v') # dict_set k v d)"

fun dict_pop :: "'k \<Rightarrow> ('k, 'v) dict \<Rightarrow> ('k, 'v) dict" where
  "dict_pop k [] = []"
| "dict_pop k ((k', v) # d) = (if k' = k then dict_pop k d else (k', v) # dict_pop k d)"

text \<open>
  A \<open>set\<close> has no specified iteration order. It is kept as a duplicate-free list;
  \<open>s.add(x)\<close> is \<open>set_add\<close>. The theorems about enumerations of the set hold for
  every state, hence for every order of this list.
\<close>

definition set_add :: "'a \<Rightarrow> 'a list \<Rightarrow> 'a list" where
  "set_add x xs = (if x \<in> set xs then xs else xs @ [x])"


section \<open>store.py: InMemoryStore\<close>

text \<open>
  A record value is a \<open>Dict[str, Any]\<close>; the type \<open>'a\<close> of its field values is a
  parameter, and HOL equality on \<open>'a\<close> stands for Python's \<open>==\<close>. The type \<open>'t\<close> of
  clock readings is a parameter too: \<open>put\<close> only adds and multiplies on it, so what
  is proved holds for whatever arithmetic the clock values have.
\<close>

type_synonym 'a item = "(string, 'a) dict"

record ('a, 't) store =
  data :: "(string, 'a item) dict"
  namespaces :: "string list list"
  ttl_data :: "(string, 't) dict"

text \<open>
  \<open>InMemoryStore.__init__\<close>. The fourth attribute, \<open>_index_config\<close>, is written here
  and read by no method; it is left out of the state.
\<close>

definition init :: "('a, 't) store" where
  "init = \<lparr>data = [], namespaces = [], ttl_data = []\<rparr>"

text \<open>\<open>_make_key\<close>: \<open>f"{':'.join(namespace)}:{key}"\<close>.\<close>

definition make_key :: "string list \<Rightarrow> string \<Rightarrow> string" where
  "make_key namespace key = py_join '':'' namespace @ '':'' @ key"

text \<open>\<open>get\<close>; \<open>refresh_ttl\<close> is not read by the body and is left out.\<close>

definition get :: "('a, 't) store \<Rightarrow> string list \<Rightarrow> string \<Rightarrow> 'a item option" where
  "get S namespace key = dict_get (data S) (make_key namespace key)"

text \<open>
  \<open>put\<close>; \<open>index\<close> is not read by the body and is left out. \<open>now\<close> is the value
  \<open>time.time()\<close> returns when the body reads the clock.
\<close>

definition put ::
  "('a, 't::{plus,times,numeral}) store \<Rightarrow> string list \<Rightarrow> string \<Rightarrow> 'a item \<Rightarrow> 't option \<Rightarrow> 't
     \<Rightarrow> ('a, 't) store" where
  "put S namespace key val ttl now =
     (let ns_key = make_key namespace key;
          S1 = S\<lparr>data := dict_set ns_key val (data S),
                 namespaces := set_add namespace (namespaces S)\<rparr>
      in case ttl of
           None \<Rightarrow> S1
         | Some m \<Rightarrow> S1\<lparr>ttl_data := dict_set ns_key (now + m * 60) (ttl_data S1)\<rparr>)"

text \<open>\<open>delete\<close>.\<close>

definition delete :: "('a, 't) store \<Rightarrow> string list \<Rightarrow> string \<Rightarrow> ('a, 't) store" where
  "delete S namespace key =
     (let ns_key = make_key namespace key
      in S\<lparr>data := dict_pop ns_key (data S), ttl_data := dict_pop ns_key (ttl_data S)\<rparr>)"

text \<open>\<open>_matches_filter\<close>: the loop over \<open>filter_dict.items()\<close>.\<close>

fun matches_filter :: "'a item \<Rightarrow> 'a item \<Rightarrow> bool" where
  "matches_filter val [] = True"
| "matches_filter val ((filter_key, filter_value) # rest) =
     (case dict_get val filter_key of
        None \<Rightarrow> False
      | Some x \<Rightarrow> if x \<noteq> filter_value then False else matches_filter val rest)"

text \<open>
  \<open>search\<close>: \<open>results\<close> is the list the loop over \<open>self._data.items()\<close> builds,
  \<open>search\<close> slices it. \<open>query\<close> and \<open>refresh_ttl\<close> are not read by the body.
\<close>

definition results ::
  "('a, 't) store \<Rightarrow> string list \<Rightarrow> 'a item option \<Rightarrow> 'a item list" where
  "results S namespace_prefix fltr =
     (let prefix_str = make_key namespace_prefix []
      in map snd (filter (\<lambda>(ns_key, val).
            startswith ns_key prefix_str \<and>
            (case fltr of None \<Rightarrow> True | Some f \<Rightarrow> matches_filter val f)) (data S)))"

definition search ::
  "('a, 't) store \<Rightarrow> string list \<Rightarrow> 'a item option \<Rightarrow> int \<Rightarrow> int \<Rightarrow> 'a item list" where
  "search S namespace_prefix fltr limit offset =
     py_slice (Some offset) (Some (offset + limit)) (results S namespace_prefix fltr)"

text \<open>\<open>list_namespaces\<close>: three optional filters, then the slice.\<close>

definition list_namespaces ::
  "('a, 't) store \<Rightarrow> string list option \<Rightarrow> string list option \<Rightarrow> int option \<Rightarrow> int \<Rightarrow> int
     \<Rightarrow> string list list" where
  "list_namespaces S prefix_arg suffix_arg max_depth limit offset =
     (let n0 = namespaces S;
          n1 = (case prefix_arg of None \<Rightarrow> n0
                | Some p \<Rightarrow> filter (\<lambda>ns. py_slice None (Some (int (length p))) ns = p) n0);
          n2 = (case suffix_arg of None \<Rightarrow> n1
                | Some s \<Rightarrow> filter (\<lambda>ns. py_slice (Some (- int (length s))) None ns = s) n1);
          n3 = (case max_depth of None \<Rightarrow> n2
                | Some d \<Rightarrow> filter (\<lambda>ns. int (length ns) \<le> d) n2)
      in py_slice (Some offset) (Some (offset + limit)) n3)"

text \<open>The default arguments of \<open>search\<close> and \<open>list_namespaces\<close>.\<close>

definition search_default_limit :: int where
  "search_default_limit = 10"

definition list_default_limit :: int where
  "list_default_limit = 100"

text \<open>
  A sequence of calls on one store: each \<open>Put\<close> carries the arguments of the call
  and the clock reading it sees.
\<close>

datatype ('a, 't) op =
    Put "string list" string "'a item" "'t option" 't
  | Delete "string list" string

fun apply_op :: "('a, 't::{plus,times,numeral}) store \<Rightarrow> ('a, 't) op \<Rightarrow> ('a, 't) store" where
  "apply_op S (Put namespace key val ttl now) = put S namespace key val ttl now"
| "apply_op S (Delete namespace key) = delete S namespace key"

fun run :: "('a, 't::{plus,times,numeral}) store \<Rightarrow> ('a, 't) op list \<Rightarrow> ('a, 't) store" where
  "run S [] = S"
| "run S (c # cs) = run (apply_op S c) cs"


section \<open>store.py: DiskBackedInMemStore\<close>

text \<open>
  The file system is a map from paths to files. A file is either text that
  \<open>json.load\<close> rejects, or a JSON object whose keys \<open>data\<close>, \<open>namespaces\<close> and
  \<open>ttl_data\<close> may each be missing; these are the files \<open>_save_to_disk\<close> writes and
  the ones \<open>_load_from_disk\<close> recovers from. \<open>json.dump\<close> writes a tuple as a JSON
  array, so a namespace is stored as an array of strings. The records and the expiry
  instants are taken to be values that \<open>json.dump\<close> accepts and \<open>json.load\<close> gives
  back unchanged, so the document holds the two dicts as they are.
\<close>

datatype py_error = TypeError

datatype ('a, 't) disk_file =
    Unparsable
  | Document "(string, 'a item) dict option" "string list list option" "(string, 't) dict option"

type_synonym ('a, 't) filesystem = "string \<Rightarrow> ('a, 't) disk_file option"

text \<open>The subclass adds \<open>persist_path\<close> to the inherited state \<open>mem\<close>.\<close>

record ('a, 't) disk_store =
  mem :: "('a, 't) store"
  persist_path :: "string option"

text \<open>Truth value of an \<open>Optional[str]\<close>: \<open>None\<close> and the empty string are false.\<close>

definition truthy :: "string option \<Rightarrow> bool" where
  "truthy p = (case p of None \<Rightarrow> False | Some s \<Rightarrow> s \<noteq> [])"

text \<open>
  \<open>_load_from_disk\<close>. A missing file and an unparsable one are caught and leave the
  state as it is. \<open>json.load\<close> returns every JSON array as a Python list, and
  \<open>set(...)\<close> hashes each member of its argument: a list is unhashable, so the
  call raises \<open>TypeError\<close> as soon as the array of namespaces has a member. The
  handler catches \<open>FileNotFoundError\<close> and \<open>JSONDecodeError\<close> only, so the error
  leaves the constructor. \<open>open(None)\<close> raises \<open>TypeError\<close> as well.
\<close>

definition load_from_disk ::
  "('a, 't) disk_store \<Rightarrow> ('a, 't) filesystem \<Rightarrow> py_error + ('a, 't) disk_store" where
  "load_from_disk D fs =
     (case persist_path D of
        None \<Rightarrow> Inl TypeError
      | Some path \<Rightarrow>
          (case fs path of
             None \<Rightarrow> Inr D
           | Some Unparsable \<Rightarrow> Inr D
           | Some (Document d n t) \<Rightarrow>
               (let M1 = (mem D)\<lparr>data := (case d of None \<Rightarrow> [] | Some x \<Rightarrow> x)\<rparr>;
                    arrays = (case n of None \<Rightarrow> [] | Some x \<Rightarrow> x)
                in if arrays \<noteq> [] then Inl TypeError
                   else Inr (D\<lparr>mem := M1\<lparr>namespaces := [],
                                          ttl_data := (case t of None \<Rightarrow> [] | Some x \<Rightarrow> x)\<rparr>\<rparr>))))"

text \<open>\<open>DiskBackedInMemStore.__init__\<close>.\<close>

definition disk_init ::
  "string option \<Rightarrow> ('a, 't) filesystem \<Rightarrow> py_error + ('a, 't) disk_store" where
  "disk_init path fs =
     (let D = \<lparr>mem = init, persist_path = path\<rparr>
      in if truthy path then load_from_disk D fs else Inr D)"

text \<open>\<open>_save_to_disk\<close>: the whole state replaces the file.\<close>

definition save_to_disk ::
  "('a, 't) disk_store \<Rightarrow> ('a, 't) filesystem \<Rightarrow> ('a, 't) filesystem" where
  "save_to_disk D fs =
     (if truthy (persist_path D)
      then fs(the (persist_path D) \<mapsto>
                Document (Some (data (mem D))) (Some (namespaces (mem D))) (Some (ttl_data (mem D))))
      else fs)"

text \<open>The overriding \<open>put\<close> and \<open>delete\<close>: the inherited method, then the save.\<close>

definition disk_put ::
  "('a, 't::{plus,times,numeral}) disk_store \<Rightarrow> string list \<Rightarrow> string \<Rightarrow> 'a item \<Rightarrow> 't option \<Rightarrow> 't
     \<Rightarrow> ('a, 't) filesystem \<Rightarrow> ('a, 't) disk_store \<times> ('a, 't) filesystem" where
  "disk_put D namespace key val ttl now fs =
     (let D1 = D\<lparr>mem := put (mem D) namespace key val ttl now\<rparr>
      in (D1, save_to_disk D1 fs))"

definition disk_delete ::
  "('a, 't) disk_store \<Rightarrow> string list \<Rightarrow> string \<Rightarrow> ('a, 't) filesystem
     \<Rightarrow> ('a, 't) disk_store \<times> ('a, 't) filesystem" where
  "disk_delete D namespace key fs =
     (let D1 = D\<lparr>mem := delete (mem D) namespace key\<rparr>
      in (D1, save_to_disk D1 fs))"


section \<open>checkpoint.py: MemorySaver\<close>

text \<open>
  The metadata of a thread is the dict \<open>{"timestamp": ..., "size": ...}\<close>, a record
  here. The type \<open>'c\<close> of checkpoints is a parameter, and so is the builtin
  \<open>str\<close> on it, passed to \<open>saver_put\<close> as \<open>str_of\<close>.
\<close>

record 't thread_meta =
  timestamp :: 't
  size_chars :: int

record ('c, 't) memory_saver =
  checkpoints :: "(string, 'c) dict"
  metadata :: "(string, 't thread_meta) dict"

definition saver_init :: "('c, 't) memory_saver" where
  "saver_init = \<lparr>checkpoints = [], metadata = []\<rparr>"

definition saver_get :: "('c, 't) memory_saver \<Rightarrow> string \<Rightarrow> 'c option" where
  "saver_get S thread_id = dict_get (checkpoints S) thread_id"

definition saver_put ::
  "('c \<Rightarrow> string) \<Rightarrow> ('c, 't) memory_saver \<Rightarrow> string \<Rightarrow> 'c \<Rightarrow> 't \<Rightarrow> ('c, 't) memory_saver" where
  "saver_put str_of S thread_id checkpoint now =
     S\<lparr>checkpoints := dict_set thread_id checkpoint (checkpoints S),
       metadata := dict_set thread_id
                     \<lparr>timestamp = now, size_chars = int (length (str_of checkpoint))\<rparr>
                     (metadata S)\<rparr>"

definition saver_delete :: "('c, 't) memory_saver \<Rightarrow> string \<Rightarrow> ('c, 't) memory_saver" where
  "saver_delete S thread_id =
     S\<lparr>checkpoints := dict_pop thread_id (checkpoints S),
       metadata := dict_pop thread_id (metadata S)\<rparr>"

definition list_threads :: "('c, 't) memory_saver \<Rightarrow> string list" where
  "list_threads S = map fst (checkpoints S)"

definition get_metadata :: "('c, 't) memory_saver \<Rightarrow> string \<Rightarrow> 't thread_meta option" where
  "get_metadata S thread_id = dict_get (metadata S) thread_id"

definition clear_all :: "('c, 't) memory_saver \<Rightarrow> ('c, 't) memory_saver" where
  "clear_all S = S\<lparr>checkpoints := [], metadata := []\<rparr>"


section \<open>Vocabulary of the specification\<close>

text \<open>A string without the delimiter, and a segment as the data model has it: non-empty.\<close>

definition delim_free :: "string \<Rightarrow> bool" where
  "delim_free s = (CHR '':'' \<notin> set s)"

definition valid_segment :: "string \<Rightarrow> bool" where
  "valid_segment s = (s \<noteq> [] \<and> delim_free s)"

text \<open>
  The specification's suffix match: the trailing \<open>min(len(s), len(ns))\<close> segments of
  \<open>ns\<close> equal \<open>s\<close>.
\<close>

definition trailing_equal :: "string list \<Rightarrow> string list \<Rightarrow> bool" where
  "trailing_equal ns s = (drop (length ns - min (length s) (length ns)) ns = s)"

text \<open>
  The specification's filter match: every pair of the filter is a field of the record
  with an equal value; an absent filter matches.
\<close>

definition filter_holds :: "'a item \<Rightarrow> 'a item option \<Rightarrow> bool" where
  "filter_holds val fltr =
     (case fltr of None \<Rightarrow> True
      | Some f \<Rightarrow> list_all (\<lambda>(field, expected). dict_get val field = Some expected) f)"

text \<open>
  An ordinary namespace: it has a first segment, which is not empty and does not begin
  with the delimiter.
\<close>

definition ordinary_namespace :: "string list \<Rightarrow> bool" where
  "ordinary_namespace ns =
     (case ns of [] \<Rightarrow> False
      | s # _ \<Rightarrow> (case s of [] \<Rightarrow> False | c # _ \<Rightarrow> c \<noteq> CHR '':''))"

text \<open>
  What \<open>_make_key\<close> joins: the empty namespace contributes the empty string, as the
  namespace of one empty segment does.
\<close>

definition enc_ns :: "string list \<Rightarrow> string list" where
  "enc_ns ns = (if ns = [] then [[]] else ns)"

text \<open>Reading a string back as delimiter-free pieces followed by a delimiter-free rest.\<close>

fun split_delim :: "string \<Rightarrow> string list \<times> string" where
  "split_delim [] = ([], [])"
| "split_delim (c # r) =
     (case split_delim r of (segs, k) \<Rightarrow>
        if c = CHR '':'' then ([] # segs, k)
        else (case segs of [] \<Rightarrow> ([], c # k) | s # ss \<Rightarrow> ((c # s) # ss, k)))"

text \<open>Stores with many entries, for the page limits.\<close>

definition name_no :: "nat \<Rightarrow> string" where
  "name_no i = replicate (Suc i) CHR ''n''"

definition crowded :: "nat \<Rightarrow> (string, int) store" where
  "crowded n = fold (\<lambda>i S. put S [name_no i, ''x''] ''k'' [] None 0) [0..<n] init"

definition filled :: "nat \<Rightarrow> (int, int) store" where
  "filled n = fold (\<lambda>i S. put S [''a''] (name_no i) [(''i'', int i)] None 0) [0..<n] init"


section \<open>Properties of the key codec\<close>

lemma make_key_Nil: "make_key [] k = CHR '':'' # k"
  by (simp add: make_key_def)

lemma py_join_colon:
  "ns \<noteq> [] \<Longrightarrow> py_join '':'' ns @ '':'' = concat (map (\<lambda>s. s @ '':'') ns)"
  by (induction "'':''" ns rule: py_join.induct) simp_all

lemma make_key_concat:
  "ns \<noteq> [] \<Longrightarrow> make_key ns k = concat (map (\<lambda>s. s @ '':'') ns) @ k"
  using py_join_colon [of ns] by (simp add: make_key_def)

lemma make_key_Cons:
  "make_key (s # ns) k = s @ CHR '':'' # (if ns = [] then k else make_key ns k)"
  by (cases ns) (simp_all add: make_key_def)

lemma split_at_delim:
  assumes "delim_free a" "delim_free b" "a @ CHR '':'' # x = b @ CHR '':'' # y"
  shows "a = b \<and> x = y"
proof -
  have "takeWhile (\<lambda>c. c \<noteq> CHR '':'') (a @ CHR '':'' # x) = a"
    using assms(1) by (auto simp: delim_free_def takeWhile_tail)
  moreover have "takeWhile (\<lambda>c. c \<noteq> CHR '':'') (b @ CHR '':'' # y) = b"
    using assms(2) by (auto simp: delim_free_def takeWhile_tail)
  ultimately have "a = b" using assms(3) by simp
  then show ?thesis using assms(3) by simp
qed

lemma concat_has_delim: "ns \<noteq> [] \<Longrightarrow> \<not> delim_free (concat (map (\<lambda>s. s @ '':'') ns) @ k)"
  by (cases ns) (auto simp: delim_free_def)

lemma enc_inj:
  "list_all delim_free ns1 \<Longrightarrow> list_all delim_free ns2 \<Longrightarrow> delim_free k1 \<Longrightarrow> delim_free k2 \<Longrightarrow>
   concat (map (\<lambda>s. s @ '':'') ns1) @ k1 = concat (map (\<lambda>s. s @ '':'') ns2) @ k2 \<Longrightarrow>
   ns1 = ns2 \<and> k1 = k2"
proof (induction ns1 arbitrary: ns2)
  case Nil
  show ?case
  proof (cases ns2)
    case Nil with Nil.prems show ?thesis by simp
  next
    case (Cons s r)
    then have "\<not> delim_free (concat (map (\<lambda>s. s @ '':'') ns2) @ k2)"
      using concat_has_delim [of ns2 k2] by simp
    with Nil.prems show ?thesis by simp
  qed
next
  case (Cons a ns1)
  show ?case
  proof (cases ns2)
    case Nil
    have "\<not> delim_free (concat (map (\<lambda>s. s @ '':'') (a # ns1)) @ k1)"
      using concat_has_delim [of "a # ns1" k1] by simp
    with Cons.prems Nil show ?thesis by simp
  next
    case (Cons b r)
    from Cons.prems Cons have ab: "delim_free a" "delim_free b" by simp_all
    from Cons.prems(5) Cons
    have "a @ CHR '':'' # (concat (map (\<lambda>s. s @ '':'') ns1) @ k1)
        = b @ CHR '':'' # (concat (map (\<lambda>s. s @ '':'') r) @ k2)" by simp
    from split_at_delim [OF ab this]
    have "a = b" and "concat (map (\<lambda>s. s @ '':'') ns1) @ k1 = concat (map (\<lambda>s. s @ '':'') r) @ k2"
      by simp_all
    moreover from Cons.IH [of r] Cons.prems Cons this(2) have "ns1 = r \<and> k1 = k2" by simp
    ultimately show ?thesis using Cons by simp
  qed
qed

lemma make_key_enc: "make_key ns k = concat (map (\<lambda>s. s @ '':'') (enc_ns ns)) @ k"
  by (simp add: enc_ns_def make_key_concat make_key_Nil)


section \<open>Properties of dictionaries and sets\<close>

lemma dict_get_set_same: "dict_get (dict_set k v d) k = Some v"
  by (induction d) auto

lemma dict_get_set_other: "k' \<noteq> k \<Longrightarrow> dict_get (dict_set k v d) k' = dict_get d k'"
  by (induction d) auto

lemma dict_get_pop_same: "dict_get (dict_pop k d) k = None"
  by (induction d) auto

lemma dict_get_pop_other: "k' \<noteq> k \<Longrightarrow> dict_get (dict_pop k d) k' = dict_get d k'"
  by (induction d) auto

lemma dict_get_None_iff: "dict_get d k = None \<longleftrightarrow> k \<notin> set (map fst d)"
  by (induction d k rule: dict_get.induct) simp_all

lemma dict_get_Some_in: "dict_get d k = Some v \<Longrightarrow> (k, v) \<in> set d"
  by (induction d) (auto split: if_splits)

lemma dict_get_distinct: "distinct (map fst d) \<Longrightarrow> (k, v) \<in> set d \<Longrightarrow> dict_get d k = Some v"
proof (induction d)
  case Nil then show ?case by simp
next
  case (Cons a d)
  obtain k' v' where a: "a = (k', v')" by (cases a)
  show ?case
  proof (cases "k' = k")
    case True
    with Cons.prems a have "v' = v" by (force simp: image_iff)
    with True a show ?thesis by simp
  next
    case False
    with Cons a show ?thesis by simp
  qed
qed

lemma dict_pop_absent: "k \<notin> set (map fst d) \<Longrightarrow> dict_pop k d = d"
  by (induction d) auto

lemma dict_pop_idem: "dict_pop k (dict_pop k d) = dict_pop k d"
  by (induction d) auto

lemma keys_dict_set: "set (map fst (dict_set k v d)) = insert k (set (map fst d))"
  by (induction k v d rule: dict_set.induct) (simp_all add: insert_commute)

lemma keys_dict_pop: "set (map fst (dict_pop k d)) = set (map fst d) - {k}"
  by (induction k d rule: dict_pop.induct) (simp_all add: insert_Diff_if)

lemma distinct_dict_set: "distinct (map fst d) \<Longrightarrow> distinct (map fst (dict_set k v d))"
proof (induction d)
  case Nil then show ?case by simp
next
  case (Cons a d)
  then show ?case using keys_dict_set [of k v d] by (cases a) auto
qed

lemma distinct_dict_pop: "distinct (map fst d) \<Longrightarrow> distinct (map fst (dict_pop k d))"
proof (induction d)
  case Nil then show ?case by simp
next
  case (Cons a d)
  then show ?case using keys_dict_pop [of k d] by (cases a) auto
qed

lemma set_add_set: "set (set_add x xs) = insert x (set xs)"
  by (auto simp: set_add_def)

lemma set_add_distinct: "distinct xs \<Longrightarrow> distinct (set_add x xs)"
  by (auto simp: set_add_def)

lemma dict_get_set: "dict_get (dict_set k v d) k' = (if k' = k then Some v else dict_get d k')"
  by (simp add: dict_get_set_same dict_get_set_other)

lemma dict_get_pop: "dict_get (dict_pop k d) k' = (if k' = k then None else dict_get d k')"
  by (simp add: dict_get_pop_same dict_get_pop_other)

lemma dict_pop_missing: "dict_get d k = None \<Longrightarrow> dict_pop k d = d"
  by (simp add: dict_get_None_iff dict_pop_absent del: set_map)

lemma ttl_tracked_apply_op:
  assumes "\<And>x. dict_get (data S) x = None \<Longrightarrow> dict_get (ttl_data S) x = None"
      and "dict_get (data (apply_op S c)) x = None"
  shows "dict_get (ttl_data (apply_op S c)) x = None"
proof (cases c)
  case (Put ns k v ttl now)
  with assms show ?thesis
    by (cases ttl) (auto simp: put_def Let_def dict_get_set split: if_splits)
next
  case (Delete ns k)
  with assms show ?thesis
    by (auto simp: delete_def Let_def dict_get_pop split: if_splits)
qed

lemma ttl_tracked_run:
  assumes "\<And>x. dict_get (data S) x = None \<Longrightarrow> dict_get (ttl_data S) x = None"
      and "dict_get (data (run S cs)) x = None"
  shows "dict_get (ttl_data (run S cs)) x = None"
  using assms
proof (induction cs arbitrary: S)
  case Nil then show ?case by simp
next
  case (Cons c cs)
  have "\<And>y. dict_get (data (apply_op S c)) y = None \<Longrightarrow> dict_get (ttl_data (apply_op S c)) y = None"
    using Cons.prems(1) by (rule ttl_tracked_apply_op)
  from Cons.IH [OF this] Cons.prems(2) show ?case by simp
qed

lemma distinct_keys_apply_op:
  "distinct (map fst (data S)) \<Longrightarrow> distinct (map fst (data (apply_op S c)))"
proof (cases c)
  case (Put ns k v ttl now)
  assume "distinct (map fst (data S))"
  with Put show ?thesis
    by (cases ttl) (simp_all add: put_def Let_def distinct_dict_set del: distinct_map)
next
  case (Delete ns k)
  assume "distinct (map fst (data S))"
  with Delete show ?thesis
    by (simp add: delete_def Let_def distinct_dict_pop del: distinct_map)
qed

lemma distinct_keys_run:
  "distinct (map fst (data S)) \<Longrightarrow> distinct (map fst (data (run S cs)))"
  by (induction cs arbitrary: S) (simp_all add: distinct_keys_apply_op del: distinct_map)

lemma distinct_keys_reachable: "distinct (map fst (data (run init cs)))"
  by (rule distinct_keys_run) (simp add: init_def)

lemma delete_absent:
  assumes "get (run init cs) ns k = None"
  shows "delete (run init cs) ns k = run init cs"
proof -
  have a: "dict_get (data (run init cs)) (make_key ns k) = None"
    using assms by (simp add: get_def)
  have "dict_get (ttl_data (run init cs)) (make_key ns k) = None"
    by (rule ttl_tracked_run [OF _ a]) (simp add: init_def)
  with a show ?thesis by (simp add: delete_def dict_pop_missing)
qed


section \<open>The key codec (C1)\<close>

text \<open>
  C1, as amended. The codec is injective on the pairs of the data model: when every
  segment of both namespaces is non-empty and free of the delimiter \<open>:\<close>, and both
  leaf keys are free of it, equal composite keys come from equal namespaces and equal
  leaf keys.
\<close>

theorem make_key_injective:
  assumes "list_all valid_segment ns1" "list_all valid_segment ns2"
      and "delim_free k1" "delim_free k2"
      and "make_key ns1 k1 = make_key ns2 k2"
  shows "ns1 = ns2 \<and> k1 = k2"
proof -
  have d: "list_all delim_free (enc_ns ns1)" "list_all delim_free (enc_ns ns2)"
    using assms(1,2) by (auto simp: enc_ns_def list_all_iff valid_segment_def delim_free_def)
  have "enc_ns ns1 = enc_ns ns2 \<and> k1 = k2"
    using enc_inj [OF d assms(3,4)] assms(5) by (simp add: make_key_enc)
  moreover have "enc_ns ns1 = enc_ns ns2 \<Longrightarrow> ns1 = ns2"
    using assms(1,2) by (auto simp: enc_ns_def valid_segment_def split: if_splits)
  ultimately show ?thesis by blast
qed

theorem make_key_injective_witness:
  "list_all valid_segment [''user'', ''1''] \<and> delim_free ''profile'' \<and>
   make_key [''user'', ''1''] ''profile'' = ''user:1:profile'' \<and>
   ([''user'', ''1''] = [''user'', ''1''] \<and> ''profile'' = ''profile'')"
  using make_key_injective [of "[''user'', ''1'']" "[''user'', ''1'']" "''profile''" "''profile''"]
  by (simp add: valid_segment_def delim_free_def make_key_def)

text \<open>
  C1 as stated fails: a delimiter inside a segment or a leaf key moves the boundary
  between them, and the empty namespace has the key of the namespace \<open>("",)\<close>.
\<close>

theorem make_key_collision:
  "make_key [''a:b''] ''c'' = make_key [''a''] ''b:c'' \<and> [''a:b''] \<noteq> [''a''] \<and> ''c'' \<noteq> ''b:c'' \<and>
   make_key [] ''k'' = make_key [''''] ''k'' \<and> ([]::string list) \<noteq> ['''']"
  by (simp add: make_key_def)


section \<open>put, get and delete (C4, C6, C8)\<close>

text \<open>
  C4. For every namespace, key and value, \<open>get\<close> right after \<open>put\<close> returns the
  value that was put, with or without a time-to-live and whatever the store held.
\<close>

theorem put_then_get: "get (put S ns k v ttl now) ns k = Some v"
  by (cases ttl) (simp_all add: get_def put_def Let_def dict_get_set_same)

text \<open>
  C6. After \<open>delete(ns, k)\<close>, \<open>get(ns, k)\<close> finds nothing and the expiry table has
  no entry for the composite key; a second \<open>delete\<close> changes nothing; and in a store
  built from the empty one by \<open>put\<close> and \<open>delete\<close>, deleting a key that \<open>get\<close>
  does not find leaves the whole state as it was. \<open>delete\<close> has no failing branch.
\<close>

theorem delete_removes:
  "get (delete S ns k) ns k = None \<and>
   dict_get (ttl_data (delete S ns k)) (make_key ns k) = None \<and>
   delete (delete S ns k) ns k = delete S ns k \<and>
   (get (run init cs) ns k = None \<longrightarrow> delete (run init cs) ns k = run init cs)"
  using delete_absent [of cs ns k]
  by (simp add: get_def delete_def Let_def dict_get_pop_same dict_pop_idem)

theorem delete_removes_witness:
  "get (run (init :: (string, int) store) [Put [''u''] ''a'' [] (Some 1) 5]) [''u''] ''b'' = None \<and>
   delete (run (init :: (string, int) store) [Put [''u''] ''a'' [] (Some 1) 5]) [''u''] ''b''
     = run init [Put [''u''] ''a'' [] (Some 1) 5]"
  using delete_removes [of "run (init :: (string, int) store) [Put [''u''] ''a'' [] (Some 1) 5]"
      "[''u'']" "''b''" "[Put [''u''] ''a'' [] (Some 1) 5]"]
  by (simp add: get_def put_def delete_def init_def make_key_def Let_def)

text \<open>
  C8. \<open>put\<close> with a time-to-live of \<open>m\<close> minutes stores \<open>now + m * 60\<close> under the
  composite key; \<open>put\<close> without one leaves the expiry table as it was, so the expiry
  set by an earlier \<open>put\<close> of the same key is still there after it.
\<close>

theorem put_ttl:
  "dict_get (ttl_data (put S ns k v (Some m) now)) (make_key ns k) = Some (now + m * 60) \<and>
   ttl_data (put S ns k v None now) = ttl_data S \<and>
   dict_get (ttl_data (put (put S ns k v (Some m) now) ns k v' None now')) (make_key ns k)
     = Some (now + m * 60)"
  by (simp add: put_def Let_def dict_get_set_same)


section \<open>Slices and the namespace set (C5)\<close>

lemma py_slice_from_zero: "0 \<le> limit \<Longrightarrow> py_slice (Some 0) (Some limit) xs = take (nat limit) xs"
  by (auto simp: py_slice_def slice_bound_def Let_def min_def max_def)

lemma py_slice_covers: "int (length xs) \<le> limit \<Longrightarrow> py_slice (Some 0) (Some (0 + limit)) xs = xs"
proof -
  assume a: "int (length xs) \<le> limit"
  then have "0 \<le> limit" by linarith
  with a show ?thesis by (simp add: py_slice_from_zero)
qed

lemma set_py_slice: "set (py_slice lo hi xs) \<subseteq> set xs"
proof -
  have "set (take a (drop b xs)) \<subseteq> set xs" for a b
    by (meson set_take_subset set_drop_subset subset_trans)
  then show ?thesis by (simp add: py_slice_def Let_def)
qed

lemma py_slice_tail:
  "s \<noteq> [] \<Longrightarrow> py_slice (Some (- int (length s))) None ns = drop (length ns - length s) ns"
proof -
  assume "s \<noteq> []"
  then have m: "0 < length s" by simp
  define l where "l = slice_bound (- int (length s)) (int (length ns))"
  have l: "nat l = length ns - length s" and l0: "0 \<le> l" and ln: "l \<le> int (length ns)"
    using m by (auto simp: l_def slice_bound_def max_def)
  have "length (drop (nat l) ns) \<le> nat (int (length ns) - l)"
    using l0 ln by simp
  then have "take (nat (int (length ns) - l)) (drop (nat l) ns) = drop (nat l) ns"
    by (rule take_all)
  then show ?thesis
    by (simp add: py_slice_def Let_def l_def [symmetric] l)
qed

lemma py_slice_tail_empty: "py_slice (Some (- int (length ([]::'b list)))) None ns = ns"
  by (simp add: py_slice_def slice_bound_def)

lemma py_slice_head: "py_slice None (Some (int (length p))) ns = take (length p) ns"
  by (auto simp: py_slice_def slice_bound_def Let_def min_def)

lemma tail_match_iff:
  "s \<noteq> [] \<Longrightarrow> py_slice (Some (- int (length s))) None ns = s \<longleftrightarrow> trailing_equal ns s"
proof -
  assume s: "s \<noteq> []"
  show ?thesis
  proof (cases "length s \<le> length ns")
    case True
    then show ?thesis using s by (simp add: py_slice_tail trailing_equal_def min_def)
  next
    case False
    then have "ns \<noteq> s" by auto
    with False show ?thesis using s by (simp add: py_slice_tail trailing_equal_def min_def)
  qed
qed

lemma namespaces_apply_op: "set (namespaces S) \<subseteq> set (namespaces (apply_op S c))"
proof (cases c)
  case (Put ns k v ttl now)
  then show ?thesis by (cases ttl) (auto simp: put_def Let_def set_add_set)
next
  case (Delete ns k)
  then show ?thesis by (simp add: delete_def Let_def)
qed

lemma namespaces_run: "set (namespaces S) \<subseteq> set (namespaces (run S cs))"
proof (induction cs arbitrary: S)
  case Nil then show ?case by simp
next
  case (Cons c cs)
  have "set (namespaces S) \<subseteq> set (namespaces (apply_op S c))" by (rule namespaces_apply_op)
  also have "\<dots> \<subseteq> set (namespaces (run (apply_op S c) cs))" by (rule Cons.IH)
  finally show ?case by simp
qed

lemma namespaces_put: "namespaces (put S ns k v ttl now) = set_add ns (namespaces S)"
  by (cases ttl) (simp_all add: put_def Let_def)

lemma list_namespaces_plain:
  "0 \<le> limit \<Longrightarrow> list_namespaces S None None None limit 0 = take (nat limit) (namespaces S)"
  by (simp add: list_namespaces_def py_slice_from_zero)

lemma name_no_inj: "name_no i = name_no j \<longleftrightarrow> i = j"
proof
  assume "name_no i = name_no j"
  then have "length (name_no i) = length (name_no j)" by simp
  then show "i = j" by (simp add: name_no_def)
qed simp

lemma crowded_Suc: "crowded (Suc n) = put (crowded n) [name_no n, ''x''] ''k'' [] None 0"
  by (simp add: crowded_def)

lemma namespaces_crowded: "namespaces (crowded n) = map (\<lambda>i. [name_no i, ''x'']) [0..<n]"
proof (induction n)
  case 0
  show ?case by (simp add: crowded_def init_def)
next
  case (Suc n)
  have "[name_no n, ''x''] \<notin> set (map (\<lambda>i. [name_no i, ''x'']) [0..<n])"
    by (auto simp: name_no_inj)
  with Suc show ?case by (simp add: crowded_Suc namespaces_put set_add_def)
qed

text \<open>
  C5, as amended. Once a namespace has been passed to \<open>put\<close>, it stays in the
  store's namespace set under every later sequence of \<open>put\<close> and \<open>delete\<close> calls,
  also when every record under it has been deleted; and \<open>list_namespaces\<close> without
  filters returns it whenever its \<open>limit\<close> (100 by default) is at least the number of
  known namespaces.
\<close>

theorem namespace_persists:
  "ns \<in> set (namespaces (run (put S ns k v ttl now) cs)) \<and>
   (int (length (namespaces (run (put S ns k v ttl now) cs))) \<le> limit \<longrightarrow>
      ns \<in> set (list_namespaces (run (put S ns k v ttl now) cs) None None None limit 0))"
proof -
  have "ns \<in> set (namespaces (put S ns k v ttl now))"
    by (simp add: namespaces_put set_add_set)
  then have "ns \<in> set (namespaces (run (put S ns k v ttl now) cs))"
    using namespaces_run by blast
  moreover have "0 \<le> limit" if "int (length (namespaces (run (put S ns k v ttl now) cs))) \<le> limit"
    using that by linarith
  ultimately show ?thesis by (auto simp: list_namespaces_plain)
qed

theorem namespace_persists_witness:
  "int (length (namespaces (run (put (init :: (string, int) store) [''u''] ''a'' [] None 0)
                              [Delete [''u''] ''a'']))) \<le> list_default_limit \<and>
   get (run (put (init :: (string, int) store) [''u''] ''a'' [] None 0) [Delete [''u''] ''a''])
     [''u''] ''a'' = None \<and>
   [''u''] \<in> set (list_namespaces
                   (run (put (init :: (string, int) store) [''u''] ''a'' [] None 0)
                        [Delete [''u''] ''a''])
                   None None None list_default_limit 0)"
  using namespace_persists [of "[''u'']" "init :: (string, int) store" "''a''" "[]" None 0
      "[Delete [''u''] ''a'']" list_default_limit]
  by (simp add: get_def put_def delete_def init_def make_key_def Let_def set_add_def
      list_default_limit_def)

text \<open>
  C5 as stated fails on the page limit: after 101 namespaces have been put,
  \<open>list_namespaces()\<close> returns 100 of them. Which one is left out depends on the
  iteration order of the set; here it is the last one put.
\<close>

theorem list_namespaces_page_counterexample:
  "crowded 101 = put (crowded 100) [name_no 100, ''x''] ''k'' [] None 0 \<and>
   length (namespaces (crowded 101)) = 101 \<and>
   length (list_namespaces (crowded 101) None None None list_default_limit 0) = 100 \<and>
   [name_no 100, ''x''] \<notin> set (list_namespaces (crowded 101) None None None list_default_limit 0)"
proof -
  have a: "crowded 101 = put (crowded 100) [name_no 100, ''x''] ''k'' [] None 0"
    using crowded_Suc [of 100] by simp
  have b: "list_namespaces (crowded 101) None None None list_default_limit 0
             = map (\<lambda>i. [name_no i, ''x'']) [0..<100]"
    by (simp add: list_namespaces_plain list_default_limit_def namespaces_crowded take_map)
  have c: "length (namespaces (crowded 101)) = 101"
    by (simp add: namespaces_crowded)
  have d: "length (list_namespaces (crowded 101) None None None list_default_limit 0) = 100"
    by (simp add: b)
  have e: "[name_no 100, ''x'']
             \<notin> set (list_namespaces (crowded 101) None None None list_default_limit 0)"
    by (auto simp: b name_no_inj)
  show ?thesis by (intro conjI a c d e)
qed


section \<open>The suffix filter of list_namespaces (C3)\<close>

lemma list_namespaces_suffix_only:
  "list_namespaces S None (Some s) None limit 0
     = py_slice (Some 0) (Some (0 + limit))
         (filter (\<lambda>ns. py_slice (Some (- int (length s))) None ns = s) (namespaces S))"
  by (simp add: list_namespaces_def)

lemma trailing_crowded: "list_all (\<lambda>n. trailing_equal n [''x'']) (namespaces (crowded n))"
  by (simp add: namespaces_crowded list_all_iff trailing_equal_def)

text \<open>
  C3, as amended. For every non-empty suffix \<open>s\<close> and every \<open>limit\<close> (100 by
  default) that is at least the number of known namespaces whose trailing segments
  equal \<open>s\<close>, \<open>list_namespaces(suffix=s)\<close> includes \<open>ns\<close> if and only if \<open>ns\<close>
  is a known namespace and its trailing \<open>min(len(s), len(ns))\<close> segments equal \<open>s\<close>.
\<close>

theorem list_namespaces_suffix:
  assumes "s \<noteq> []"
      and "int (length (filter (\<lambda>n. trailing_equal n s) (namespaces S))) \<le> limit"
  shows "ns \<in> set (list_namespaces S None (Some s) None limit 0)
           \<longleftrightarrow> ns \<in> set (namespaces S) \<and> trailing_equal ns s"
proof -
  have "filter (\<lambda>ns. py_slice (Some (- int (length s))) None ns = s) (namespaces S)
          = filter (\<lambda>n. trailing_equal n s) (namespaces S)"
    using assms(1) by (simp add: tail_match_iff)
  then have "list_namespaces S None (Some s) None limit 0
          = filter (\<lambda>n. trailing_equal n s) (namespaces S)"
    using assms(2) by (simp only: list_namespaces_suffix_only py_slice_covers)
  then show ?thesis by simp
qed

theorem list_namespaces_suffix_witness:
  "[''1''] \<noteq> [] \<and>
   int (length (filter (\<lambda>n. trailing_equal n [''1''])
      (namespaces (put (put (init :: (string, int) store) [''user'', ''1''] ''k'' [] None 0)
                         [''user'', ''2''] ''k'' [] None 0)))) \<le> list_default_limit \<and>
   [''user'', ''1''] \<in> set (list_namespaces
      (put (put (init :: (string, int) store) [''user'', ''1''] ''k'' [] None 0)
           [''user'', ''2''] ''k'' [] None 0) None (Some [''1'']) None list_default_limit 0) \<and>
   [''user'', ''2''] \<notin> set (list_namespaces
      (put (put (init :: (string, int) store) [''user'', ''1''] ''k'' [] None 0)
           [''user'', ''2''] ''k'' [] None 0) None (Some [''1'']) None list_default_limit 0)"
  using list_namespaces_suffix [of "[''1'']"
      "put (put (init :: (string, int) store) [''user'', ''1''] ''k'' [] None 0)
           [''user'', ''2''] ''k'' [] None 0" list_default_limit "[''user'', ''1'']"]
    list_namespaces_suffix [of "[''1'']"
      "put (put (init :: (string, int) store) [''user'', ''1''] ''k'' [] None 0)
           [''user'', ''2''] ''k'' [] None 0" list_default_limit "[''user'', ''2'']"]
  by (simp add: put_def init_def make_key_def Let_def set_add_def trailing_equal_def
      list_default_limit_def)

text \<open>
  C3 as stated fails twice. With the empty suffix the code compares \<open>ns[-0:]\<close>, the
  whole namespace, with \<open>()\<close>, so the known namespace \<open>("a",)\<close> is not listed. And
  with 101 known namespaces that end in \<open>"x"\<close>, the default page holds 100 of them.
\<close>

theorem list_namespaces_suffix_counterexample:
  "[''a''] \<in> set (namespaces (put (init :: (string, int) store) [''a''] ''k'' [] None 0)) \<and>
   trailing_equal [''a''] [] \<and>
   list_namespaces (put (init :: (string, int) store) [''a''] ''k'' [] None 0)
     None (Some []) None list_default_limit 0 = [] \<and>
   [name_no 100, ''x''] \<in> set (namespaces (crowded 101)) \<and>
   trailing_equal [name_no 100, ''x''] [''x''] \<and>
   [name_no 100, ''x'']
     \<notin> set (list_namespaces (crowded 101) None (Some [''x'']) None list_default_limit 0)"
proof -
  have a: "[''a''] \<in> set (namespaces (put (init :: (string, int) store) [''a''] ''k'' [] None 0))"
    by (simp add: put_def init_def set_add_def)
  have b: "trailing_equal [''a''] []"
    by (simp add: trailing_equal_def)
  have c: "list_namespaces (put (init :: (string, int) store) [''a''] ''k'' [] None 0)
             None (Some []) None list_default_limit 0 = []"
    by (simp add: list_namespaces_def put_def init_def set_add_def py_slice_def slice_bound_def
        list_default_limit_def)
  have d: "[name_no 100, ''x''] \<in> set (namespaces (crowded 101))"
    by (simp add: namespaces_crowded)
  have e: "trailing_equal [name_no 100, ''x''] [''x'']"
    by (simp add: trailing_equal_def)
  have g: "\<And>ns. (py_slice (Some (- int (length [''x'']))) None ns = [''x''])
               = trailing_equal ns [''x'']"
    by (rule tail_match_iff) simp
  have "filter (\<lambda>n. trailing_equal n [''x'']) (namespaces (crowded 101))
          = namespaces (crowded 101)"
    using trailing_crowded [of 101] by (simp add: list_all_iff)
  then have "list_namespaces (crowded 101) None (Some [''x'']) None list_default_limit 0
          = py_slice (Some 0) (Some (0 + list_default_limit)) (namespaces (crowded 101))"
    by (simp only: list_namespaces_suffix_only g)
  also have "\<dots> = list_namespaces (crowded 101) None None None list_default_limit 0"
    by (simp add: list_namespaces_def)
  also have "\<dots> = map (\<lambda>i. [name_no i, ''x'']) [0..<100]"
    by (simp add: list_namespaces_plain list_default_limit_def namespaces_crowded take_map)
  finally have f: "[name_no 100, ''x'']
     \<notin> set (list_namespaces (crowded 101) None (Some [''x'']) None list_default_limit 0)"
    by (auto simp: name_no_inj)
  show ?thesis by (intro conjI a b c d e f)
qed


section \<open>search (C7, C10)\<close>

lemma startswith_prefix: "startswith s p \<longleftrightarrow> prefix p s"
proof
  assume "startswith s p"
  then have "s = p @ drop (length p) s"
    by (metis append_take_drop_id startswith_def)
  then show "prefix p s" by (metis prefixI)
next
  assume "prefix p s"
  then show "startswith s p" by (auto simp: startswith_def prefix_def)
qed

lemma prefix_at_delim:
  assumes "delim_free a" "delim_free b"
  shows "prefix (a @ CHR '':'' # x) (b @ CHR '':'' # y) \<longleftrightarrow> a = b \<and> prefix x y"
proof
  assume "prefix (a @ CHR '':'' # x) (b @ CHR '':'' # y)"
  then obtain z where "b @ CHR '':'' # y = a @ CHR '':'' # (x @ z)"
    by (auto simp: prefix_def)
  from split_at_delim [OF assms(2,1) this] show "a = b \<and> prefix x y" by simp
next
  assume "a = b \<and> prefix x y"
  then show "prefix (a @ CHR '':'' # x) (b @ CHR '':'' # y)" by simp
qed

lemma prefix_enc:
  "list_all delim_free p \<Longrightarrow> list_all delim_free ns \<Longrightarrow> delim_free k \<Longrightarrow>
   prefix (concat (map (\<lambda>s. s @ '':'') p)) (concat (map (\<lambda>s. s @ '':'') ns) @ k)
     \<longleftrightarrow> prefix p ns"
proof (induction p arbitrary: ns)
  case Nil
  then show ?case by simp
next
  case (Cons a p)
  show ?case
  proof (cases ns)
    case Nil
    have "\<not> prefix (a @ CHR '':'' # concat (map (\<lambda>s. s @ '':'') p)) k"
    proof
      assume "prefix (a @ CHR '':'' # concat (map (\<lambda>s. s @ '':'') p)) k"
      then have "set (a @ CHR '':'' # concat (map (\<lambda>s. s @ '':'') p)) \<subseteq> set k"
        by (rule set_mono_prefix)
      with Cons.prems(3) show False by (simp add: delim_free_def)
    qed
    with Nil show ?thesis by simp
  next
    case (Cons b r)
    from Cons.prems Cons have ab: "delim_free a" "delim_free b"
      and pr: "list_all delim_free p" "list_all delim_free r" by simp_all
    have "prefix (concat (map (\<lambda>s. s @ '':'') (a # p))) (concat (map (\<lambda>s. s @ '':'') ns) @ k)
        \<longleftrightarrow> prefix (a @ CHR '':'' # concat (map (\<lambda>s. s @ '':'') p))
                  (b @ CHR '':'' # (concat (map (\<lambda>s. s @ '':'') r) @ k))"
      using Cons by simp
    also have "\<dots> \<longleftrightarrow> a = b \<and> prefix (concat (map (\<lambda>s. s @ '':'') p))
                                      (concat (map (\<lambda>s. s @ '':'') r) @ k)"
      by (rule prefix_at_delim [OF ab])
    also have "\<dots> \<longleftrightarrow> a = b \<and> prefix p r"
      using Cons.IH [OF pr Cons.prems(3)] by simp
    finally show ?thesis using Cons by simp
  qed
qed

lemma valid_delim_free: "list_all valid_segment p \<Longrightarrow> list_all delim_free p"
  by (simp add: list_all_iff valid_segment_def)

lemma make_key_prefix:
  assumes "p \<noteq> []" "list_all valid_segment p" "list_all delim_free ns" "delim_free k"
  shows "startswith (make_key ns k) (make_key p []) \<longleftrightarrow> prefix p ns"
proof -
  have e: "list_all delim_free (enc_ns ns)"
    using assms(3) by (simp add: enc_ns_def delim_free_def)
  have "startswith (make_key ns k) (make_key p [])
      \<longleftrightarrow> prefix (concat (map (\<lambda>s. s @ '':'') p)) (concat (map (\<lambda>s. s @ '':'') (enc_ns ns)) @ k)"
    using assms(1) by (simp add: startswith_prefix make_key_concat make_key_enc [of ns])
  also have "\<dots> \<longleftrightarrow> prefix p (enc_ns ns)"
    by (rule prefix_enc [OF valid_delim_free [OF assms(2)] e assms(4)])
  also have "\<dots> \<longleftrightarrow> prefix p ns"
  proof (cases "ns = []")
    case True
    have "\<not> prefix p [[]]"
    proof
      assume "prefix p [[]]"
      with assms(1) have "p = [[]]" by (cases p) auto
      with assms(2) show False by (simp add: valid_segment_def)
    qed
    with True assms(1) show ?thesis by (simp add: enc_ns_def)
  next
    case False
    then show ?thesis by (simp add: enc_ns_def)
  qed
  finally show ?thesis .
qed

lemma delim_free_Nil: "delim_free []"
  by (simp add: delim_free_def)

lemma delim_free_Cons: "delim_free (c # s) \<longleftrightarrow> c \<noteq> CHR '':'' \<and> delim_free s"
  by (auto simp: delim_free_def)

lemma split_delim_correct:
  "split_delim r = (segs, k) \<Longrightarrow>
   list_all delim_free segs \<and> delim_free k \<and> r = concat (map (\<lambda>s. s @ '':'') segs) @ k"
proof (induction r arbitrary: segs k)
  case Nil
  then show ?case by (simp add: delim_free_Nil delim_free_Cons)
next
  case (Cons c r)
  obtain segs' k' where sp: "split_delim r = (segs', k')" by (cases "split_delim r")
  from Cons.IH [OF sp] have ih: "list_all delim_free segs'" "delim_free k'"
    "r = concat (map (\<lambda>s. s @ '':'') segs') @ k'" by simp_all
  show ?case
  proof (cases "c = CHR '':''")
    case True
    with Cons.prems sp have "segs = [] # segs'" "k = k'" by simp_all
    with ih True show ?thesis by (simp add: delim_free_Nil delim_free_Cons)
  next
    case False
    show ?thesis
    proof (cases segs')
      case Nil
      with Cons.prems sp False have "segs = []" "k = c # k'" by simp_all
      with ih Nil False show ?thesis by (simp add: delim_free_Nil delim_free_Cons)
    next
      case (Cons s ss)
      with Cons.prems sp False have "segs = (c # s) # ss" "k = k'" by simp_all
      with ih Cons False show ?thesis by (simp add: delim_free_Nil delim_free_Cons)
    qed
  qed
qed

lemma decode_key:
  assumes "p \<noteq> []" "list_all valid_segment p" "startswith ck (make_key p [])"
  shows "\<exists>ns k. list_all delim_free ns \<and> delim_free k \<and> prefix p ns \<and> ck = make_key ns k"
proof -
  from assms(3) obtain rest where ck: "ck = make_key p [] @ rest"
    by (auto simp: startswith_prefix prefix_def)
  obtain segs k where sp: "split_delim rest = (segs, k)" by (cases "split_delim rest")
  from split_delim_correct [OF sp] have c: "list_all delim_free segs" "delim_free k"
    "rest = concat (map (\<lambda>s. s @ '':'') segs) @ k" by simp_all
  have "list_all delim_free (p @ segs)"
    using valid_delim_free [OF assms(2)] c(1) by simp
  moreover have "prefix p (p @ segs)" by simp
  moreover have "ck = make_key (p @ segs) k"
    using assms(1) ck c(3) by (simp add: make_key_concat)
  ultimately show ?thesis using c(2) by blast
qed

lemma matches_filter_iff:
  "matches_filter val f \<longleftrightarrow> list_all (\<lambda>(field, expected). dict_get val field = Some expected) f"
  by (induction val f rule: matches_filter.induct) (auto split: option.splits)

lemma in_results:
  "v \<in> set (results S p F) \<longleftrightarrow>
     (\<exists>ck. (ck, v) \<in> set (data S) \<and> startswith ck (make_key p []) \<and> filter_holds v F)"
  by (cases F) (force simp: results_def filter_holds_def matches_filter_iff)+

text \<open>
  C7, as amended. Let the prefix \<open>p\<close> be non-empty with non-empty, delimiter-free
  segments, and let \<open>limit\<close> (10 by default) be at least the number of matching
  records. Then \<open>search(p, filter=F, limit=limit)\<close> returns exactly the records that
  \<open>get\<close> finds under some delimiter-free namespace that starts with \<open>p\<close> and some
  delimiter-free key, and for which every pair of \<open>F\<close> is a field of the record with
  an equal value; an absent or empty filter lets every such record through.
\<close>

theorem search_exact:
  assumes "p \<noteq> []" "list_all valid_segment p" "distinct (map fst (data S))"
      and "int (length (results S p F)) \<le> limit"
  shows "set (search S p F limit 0) =
           {v. \<exists>ns k. list_all delim_free ns \<and> delim_free k \<and> prefix p ns \<and>
                       get S ns k = Some v \<and> filter_holds v F}"
proof -
  have s: "search S p F limit 0 = results S p F"
    using assms(4) by (simp only: search_def py_slice_covers)
  show ?thesis
  proof (intro set_eqI iffI)
    fix v
    assume "v \<in> set (search S p F limit 0)"
    then obtain ck where ck: "(ck, v) \<in> set (data S)" "startswith ck (make_key p [])"
      "filter_holds v F" by (auto simp: s in_results)
    from decode_key [OF assms(1,2) ck(2)] obtain ns k where
      nk: "list_all delim_free ns" "delim_free k" "prefix p ns" "ck = make_key ns k" by blast
    have "get S ns k = Some v"
      using dict_get_distinct [OF assms(3) ck(1)] nk(4) by (simp add: get_def)
    with nk ck(3) show "v \<in> {v. \<exists>ns k. list_all delim_free ns \<and> delim_free k \<and> prefix p ns \<and>
                       get S ns k = Some v \<and> filter_holds v F}" by blast
  next
    fix v
    assume "v \<in> {v. \<exists>ns k. list_all delim_free ns \<and> delim_free k \<and> prefix p ns \<and>
                       get S ns k = Some v \<and> filter_holds v F}"
    then obtain ns k where nk: "list_all delim_free ns" "delim_free k" "prefix p ns"
      "get S ns k = Some v" "filter_holds v F" by blast
    have "(make_key ns k, v) \<in> set (data S)"
      using nk(4) by (simp add: get_def dict_get_Some_in)
    moreover have "startswith (make_key ns k) (make_key p [])"
      using make_key_prefix [OF assms(1,2) nk(1,2)] nk(3) by simp
    ultimately show "v \<in> set (search S p F limit 0)"
      using nk(5) by (auto simp: s in_results)
  qed
qed

theorem search_exact_witness:
  "[''a''] \<noteq> [] \<and> list_all valid_segment [''a''] \<and>
   distinct (map fst (data
     (put (put (init :: (string, int) store) [''a'', ''b''] ''k'' [(''type'', ''x'')] None 0)
          [''a'', ''c''] ''k'' [(''type'', ''y'')] None 0))) \<and>
   int (length (results
     (put (put (init :: (string, int) store) [''a'', ''b''] ''k'' [(''type'', ''x'')] None 0)
          [''a'', ''c''] ''k'' [(''type'', ''y'')] None 0)
     [''a''] (Some [(''type'', ''x'')]))) \<le> search_default_limit \<and>
   search
     (put (put (init :: (string, int) store) [''a'', ''b''] ''k'' [(''type'', ''x'')] None 0)
          [''a'', ''c''] ''k'' [(''type'', ''y'')] None 0)
     [''a''] (Some [(''type'', ''x'')]) search_default_limit 0 = [[(''type'', ''x'')]] \<and>
   {v. \<exists>ns k. list_all delim_free ns \<and> delim_free k \<and> prefix [''a''] ns \<and>
        get (put (put (init :: (string, int) store) [''a'', ''b''] ''k'' [(''type'', ''x'')] None 0)
                 [''a'', ''c''] ''k'' [(''type'', ''y'')] None 0) ns k = Some v \<and>
        filter_holds v (Some [(''type'', ''x'')])} = {[(''type'', ''x'')]}"
proof -
  let ?S = "put (put (init :: (string, int) store) [''a'', ''b''] ''k'' [(''type'', ''x'')] None 0)
          [''a'', ''c''] ''k'' [(''type'', ''y'')] None 0"
  have h1: "[''a''] \<noteq> []" by simp
  have h2: "list_all valid_segment [''a'']" by (simp add: valid_segment_def delim_free_def)
  have h3: "distinct (map fst (data ?S))"
    by (simp add: put_def init_def make_key_def Let_def)
  have h4: "int (length (results ?S [''a''] (Some [(''type'', ''x'')]))) \<le> search_default_limit"
    by (simp add: results_def put_def init_def make_key_def Let_def startswith_def
        search_default_limit_def)
  have e: "search ?S [''a''] (Some [(''type'', ''x'')]) search_default_limit 0 = [[(''type'', ''x'')]]"
    by (simp add: search_def results_def put_def init_def make_key_def Let_def startswith_def
        search_default_limit_def py_slice_def slice_bound_def)
  from search_exact [OF h1 h2 h3 h4] e
  have "{v. \<exists>ns k. list_all delim_free ns \<and> delim_free k \<and> prefix [''a''] ns \<and>
        get ?S ns k = Some v \<and> filter_holds v (Some [(''type'', ''x'')])} = {[(''type'', ''x'')]}"
    by simp
  with h1 h2 h3 h4 e show ?thesis by blast
qed

text \<open>
  C7 as stated fails three times. A record put under \<open>("a:b",)\<close> is returned for the
  prefix \<open>("a",)\<close>, which its namespace does not start with. A record put under
  \<open>("a",)\<close> is not returned for the empty prefix, which every namespace starts with.
  And of eleven records under \<open>("a",)\<close> the default page returns ten.
\<close>

theorem search_exact_counterexample:
  "get (put (init :: (int, int) store) [''a:b''] ''k'' [(''t'', 1)] None 0) [''a:b''] ''k''
     = Some [(''t'', 1)] \<and>
   \<not> prefix [''a''] [''a:b''] \<and>
   search (put (init :: (int, int) store) [''a:b''] ''k'' [(''t'', 1)] None 0)
     [''a''] None search_default_limit 0 = [[(''t'', 1)]] \<and>
   get (put (init :: (int, int) store) [''a''] ''k'' [(''t'', 1)] None 0) [''a''] ''k''
     = Some [(''t'', 1)] \<and>
   prefix [] [''a''] \<and>
   search (put (init :: (int, int) store) [''a''] ''k'' [(''t'', 1)] None 0)
     [] None search_default_limit 0 = [] \<and>
   get (filled 11) [''a''] (name_no 10) = Some [(''i'', 10)] \<and>
   prefix [''a''] [''a''] \<and>
   [(''i'', 10)] \<notin> set (search (filled 11) [''a''] None search_default_limit 0)"
proof -
  have a: "get (put (init :: (int, int) store) [''a:b''] ''k'' [(''t'', 1)] None 0) [''a:b''] ''k''
     = Some [(''t'', 1)]"
    by (simp add: get_def put_def init_def make_key_def Let_def)
  have b: "\<not> prefix [''a''] [''a:b'']" by simp
  have c: "search (put (init :: (int, int) store) [''a:b''] ''k'' [(''t'', 1)] None 0)
     [''a''] None search_default_limit 0 = [[(''t'', 1)]]"
    by (simp add: search_def results_def put_def init_def make_key_def Let_def startswith_def
        search_default_limit_def py_slice_def slice_bound_def)
  have d: "get (put (init :: (int, int) store) [''a''] ''k'' [(''t'', 1)] None 0) [''a''] ''k''
     = Some [(''t'', 1)]"
    by (simp add: get_def put_def init_def make_key_def Let_def)
  have e: "prefix [] [''a'']" by simp
  have f: "search (put (init :: (int, int) store) [''a''] ''k'' [(''t'', 1)] None 0)
     [] None search_default_limit 0 = []"
    by (simp add: search_def results_def put_def init_def make_key_def Let_def startswith_def
        search_default_limit_def py_slice_def slice_bound_def)
  have g: "get (filled 11) [''a''] (name_no 10) = Some [(''i'', 10)]"
    by code_simp
  have h: "prefix [''a''] [''a'']" by simp
  have i: "[(''i'', 10)] \<notin> set (search (filled 11) [''a''] None search_default_limit 0)"
    by code_simp
  show ?thesis by (intro conjI a b c d e f g h i)
qed

lemma filter_dict_set:
  "(\<And>x. \<not> P (k, x)) \<Longrightarrow> filter P (dict_set k v d) = filter P d"
  by (induction k v d rule: dict_set.induct) simp_all

lemma data_put: "data (put S ns k v ttl now) = dict_set (make_key ns k) v (data S)"
  by (cases ttl) (simp_all add: put_def Let_def)

text \<open>
  C10. For every store, \<open>search\<close> with the empty prefix encodes it as the bare
  delimiter \<open>":"\<close>; every record it returns is stored under a composite key that
  starts with \<open>":"\<close>; the key of an ordinary namespace (first segment non-empty and
  not beginning with the delimiter) never starts with it, and putting a record under
  an ordinary namespace never changes what the search returns, whatever the filter,
  limit and offset.
\<close>

theorem search_empty_prefix:
  "make_key [] [] = '':'' \<and>
   set (search S [] F limit offset) \<subseteq> {v. \<exists>ck. (ck, v) \<in> set (data S) \<and> startswith ck '':''} \<and>
   (ordinary_namespace ns \<longrightarrow>
      \<not> startswith (make_key ns k) '':'' \<and>
      search (put S ns k v ttl now) [] F limit offset = search S [] F limit offset)"
proof -
  have a: "make_key [] [] = '':''" by (simp add: make_key_def)
  have "set (search S [] F limit offset) \<subseteq> set (results S [] F)"
    by (simp add: search_def set_py_slice)
  also have "\<dots> \<subseteq> {v. \<exists>ck. (ck, v) \<in> set (data S) \<and> startswith ck '':''}"
    using a by (auto simp: in_results)
  finally have b: "set (search S [] F limit offset)
                     \<subseteq> {v. \<exists>ck. (ck, v) \<in> set (data S) \<and> startswith ck '':''}" .
  have c: "\<not> startswith (make_key ns k) '':'' \<and>
      search (put S ns k v ttl now) [] F limit offset = search S [] F limit offset"
    if o: "ordinary_namespace ns"
  proof -
    from o obtain c s r where ns: "ns = (c # s) # r" "c \<noteq> CHR '':''"
      by (auto simp: ordinary_namespace_def split: list.splits)
    then have n: "\<not> startswith (make_key ns k) '':''"
      by (simp add: make_key_Cons startswith_def)
    have "results (put S ns k v ttl now) [] F = results S [] F"
      using n a by (simp add: results_def data_put filter_dict_set)
    with n show ?thesis by (simp add: search_def)
  qed
  from a b c show ?thesis by blast
qed

theorem search_empty_prefix_witness:
  "ordinary_namespace [''user''] \<and>
   search (put (init :: (string, int) store) [''user''] ''k'' [(''name'', ''Ann'')] None 0)
     [] None search_default_limit 0 = [] \<and>
   search (put (init :: (string, int) store) [] ''k'' [(''name'', ''Ann'')] None 0)
     [] None search_default_limit 0 = [[(''name'', ''Ann'')]]"
  using search_empty_prefix [of "init :: (string, int) store" None search_default_limit 0
      "[''user'']" "''k''" "[(''name'', ''Ann'')]" None 0]
  by (simp add: ordinary_namespace_def search_def results_def put_def init_def make_key_def
      Let_def startswith_def search_default_limit_def py_slice_def slice_bound_def)


section \<open>The checkpoint log (C9)\<close>

text \<open>
  C9. For every thread id \<open>t\<close> and checkpoint \<open>c\<close>, after \<open>put(t, c)\<close> the stored
  checkpoint is \<open>c\<close> and the metadata of \<open>t\<close> holds the clock reading of the call,
  which is no earlier than the time of the call when the clock does not run backwards,
  and as size the length of \<open>str(c)\<close>. After \<open>delete(t)\<close>, in whatever state,
  \<open>get(t)\<close> finds nothing, the metadata of \<open>t\<close> is gone and \<open>list_threads()\<close> does
  not contain \<open>t\<close>.
\<close>

theorem checkpoint_put_delete:
  fixes now :: "'t::order"
  assumes "called_at \<le> now"
  shows "saver_get (saver_put str_of S t c now) t = Some c \<and>
         (\<exists>m. get_metadata (saver_put str_of S t c now) t = Some m \<and>
              timestamp m = now \<and> called_at \<le> timestamp m \<and>
              size_chars m = int (length (str_of c))) \<and>
         saver_get (saver_delete X t) t = None \<and>
         get_metadata (saver_delete X t) t = None \<and>
         t \<notin> set (list_threads (saver_delete X t))"
proof -
  have "dict_get (checkpoints (saver_delete X t)) t = None"
    by (simp add: saver_delete_def dict_get_pop_same)
  then have "t \<notin> set (list_threads (saver_delete X t))"
    unfolding list_threads_def
    using dict_get_None_iff [of "checkpoints (saver_delete X t)" t] by blast
  then show ?thesis
    using assms
    by (simp add: saver_get_def get_metadata_def saver_put_def saver_delete_def
        dict_get_set_same dict_get_pop_same)
qed

theorem checkpoint_put_delete_witness:
  "(5::int) \<le> 7 \<and>
   saver_get (saver_put (\<lambda>s. s) (saver_init :: (string, int) memory_saver) ''threadA'' ''step 1'' 7)
     ''threadA'' = Some ''step 1'' \<and>
   get_metadata (saver_put (\<lambda>s. s) (saver_init :: (string, int) memory_saver) ''threadA'' ''step 1'' 7)
     ''threadA'' = Some \<lparr>timestamp = 7, size_chars = 6\<rparr> \<and>
   saver_get (saver_delete
       (saver_put (\<lambda>s. s) (saver_init :: (string, int) memory_saver) ''threadA'' ''step 1'' 7)
       ''threadA'') ''threadA'' = None \<and>
   list_threads (saver_delete
       (saver_put (\<lambda>s. s) (saver_init :: (string, int) memory_saver) ''threadA'' ''step 1'' 7)
       ''threadA'') = []"
  using checkpoint_put_delete [of "5::int" 7 "\<lambda>s. s" "saver_init :: (string, int) memory_saver"
      "''threadA''" "''step 1''"
      "saver_put (\<lambda>s. s) (saver_init :: (string, int) memory_saver) ''threadA'' ''step 1'' 7"]
  by (simp add: saver_get_def get_metadata_def saver_put_def saver_delete_def saver_init_def
      list_threads_def)


section \<open>Reloading a persisted store (C2)\<close>

text \<open>
  A file that \<open>_save_to_disk\<close> wrote loads again only if the store knew no namespace:
  one known namespace is enough for the constructor to raise.
\<close>

lemma reload_raises:
  assumes "truthy (persist_path D)" "namespaces (mem D) \<noteq> []"
  shows "disk_init (persist_path D) (save_to_disk D fs) = Inl TypeError"
proof -
  from assms(1) obtain path where p: "persist_path D = Some path"
    by (auto simp: truthy_def split: option.splits)
  with assms show ?thesis
    by (simp add: disk_init_def load_from_disk_def save_to_disk_def Let_def)
qed

lemma reload_without_namespaces:
  assumes "truthy (persist_path D)" "namespaces (mem D) = []"
  shows "disk_init (persist_path D) (save_to_disk D fs) = Inr D"
proof -
  from assms(1) obtain path where p: "persist_path D = Some path"
    by (auto simp: truthy_def split: option.splits)
  with assms show ?thesis
    by (simp add: disk_init_def load_from_disk_def save_to_disk_def Let_def init_def)
qed

text \<open>
  C2 says that a fresh \<open>DiskBackedInMemStore\<close> built from the file a previous
  instance wrote comes up and answers \<open>get\<close>, \<open>search\<close> and \<open>list_namespaces\<close>
  as the previous one did. The code does not do that: starting from no file, the first
  store comes up empty; it puts one record, which it can read back and which
  \<open>_save_to_disk\<close> writes; and the constructor of a second store on the same path
  raises \<open>TypeError\<close>.
\<close>

theorem reload_after_put_raises:
  "disk_init (Some ''store.json'') (Map.empty :: (string, int) filesystem)
     = Inr \<lparr>mem = init, persist_path = Some ''store.json''\<rparr> \<and>
   get (mem (fst (disk_put \<lparr>mem = (init :: (string, int) store), persist_path = Some ''store.json''\<rparr>
                   [''a''] ''k'' [(''x'', ''1'')] None 0 Map.empty))) [''a''] ''k''
     = Some [(''x'', ''1'')] \<and>
   disk_init (Some ''store.json'')
     (snd (disk_put \<lparr>mem = (init :: (string, int) store), persist_path = Some ''store.json''\<rparr>
                    [''a''] ''k'' [(''x'', ''1'')] None 0 Map.empty))
     = Inl TypeError"
  by (simp add: disk_init_def load_from_disk_def save_to_disk_def disk_put_def truthy_def
      get_def put_def init_def make_key_def set_add_def Let_def)

end
